theory Spec2Isabelle
  imports Main "HOL-Library.AList" "HOL-Library.List_Lexorder" "HOL-Library.Product_Lexorder"
begin

section \<open>Strings and the character database\<close>

text \<open>
  A Python \<^verbatim>\<open>str\<close> is a sequence of Unicode code points; a code point is a natural
  number, so the German letters of \<^verbatim>\<open>vocab.py\<close> are single elements
  (U+00E4 is 228, U+00DF is 223, U+1E9E is 7838).

  \<^verbatim>\<open>str.strip\<close>, \<^verbatim>\<open>str.isdigit\<close>, \<^verbatim>\<open>str.lower\<close> and the regular expression class
  \<^verbatim>\<open>\w\<close> read the Unicode character database of the Python runtime, which is not part
  of the repository. The database is a parameter of every function that uses it.
\<close>

type_synonym ustr = "nat list"

record ucd =
  isspace :: "nat \<Rightarrow> bool"
  isdigit :: "nat \<Rightarrow> bool"
  isalnum :: "nat \<Rightarrow> bool"
  lower :: "ustr \<Rightarrow> ustr"

definition ascii :: "string \<Rightarrow> ustr" where
  "ascii s = map of_char s"

text \<open>\<^verbatim>\<open>word.strip()\<close>: leading and trailing whitespace removed.\<close>

definition strip :: "ucd \<Rightarrow> ustr \<Rightarrow> ustr" where
  "strip db w = rev (dropWhile (isspace db) (rev (dropWhile (isspace db) w)))"

text \<open>\<^verbatim>\<open>word.replace(old, new)\<close> for a pattern \<open>old\<close> of one code point.\<close>

definition replace :: "nat \<Rightarrow> ustr \<Rightarrow> ustr \<Rightarrow> ustr" where
  "replace old new w = concat (map (\<lambda>c. if c = old then new else [c]) w)"

section \<open>Basic utilities of vocab.py\<close>

definition normalize_word :: "ucd \<Rightarrow> ustr \<Rightarrow> ustr \<Rightarrow> ustr" where
  "normalize_word db word lang =
     (let word = strip db word in
      if word = [] then []
      else
        let word =
          (if lang = ascii ''de'' then
             replace 223 (ascii ''ss'')
               (replace 220 (ascii ''Ue'')
                 (replace 214 (ascii ''Oe'')
                   (replace 196 (ascii ''Ae'')
                     (replace 252 (ascii ''ue'')
                       (replace 246 (ascii ''oe'')
                         (replace 228 (ascii ''ae'') word))))))
           else word)
        in lower db word)"

definition contains_number :: "ucd \<Rightarrow> ustr \<Rightarrow> bool" where
  "contains_number db word = list_ex (isdigit db) word"

text \<open>
  \<^verbatim>\<open>re.findall(r"\b\w+\b", text)\<close>: the maximal runs of word characters, left to
  right. A word character is an alphanumeric code point or the underscore (95).
\<close>

definition is_word :: "ucd \<Rightarrow> nat \<Rightarrow> bool" where
  "is_word db c = (isalnum db c \<or> c = 95)"

fun runs :: "(nat \<Rightarrow> bool) \<Rightarrow> ustr \<Rightarrow> ustr \<Rightarrow> ustr list" where
  "runs p cur [] = (if cur = [] then [] else [cur])"
| "runs p cur (c # cs) =
     (if p c then runs p (cur @ [c]) cs
      else (if cur = [] then [] else [cur]) @ runs p [] cs)"

definition tokenize :: "ucd \<Rightarrow> ustr \<Rightarrow> ustr list" where
  "tokenize db text = runs (is_word db) [] text"

section \<open>Word counting\<close>

text \<open>
  \<open>words_data\<close> is a Python dictionary from the normalized key to
  \<^verbatim>\<open>{"original": str, "count": int}\<close>. Python dictionaries keep insertion order, and
  \<open>main\<close> iterates over it, so it is an association list: a new key is appended, an
  existing key is updated in place (\<open>AList.update\<close> does both).
\<close>

record word_entry =
  original :: ustr
  count :: int

record ignore_dict =
  normalized :: "ustr set"
  originals :: "ustr set"

type_synonym words = "(ustr \<times> word_entry) list"

text \<open>The body of the \<^verbatim>\<open>for original in tokens\<close> loop of \<open>count_words\<close>.\<close>

definition count_step :: "ucd \<Rightarrow> ustr \<Rightarrow> ignore_dict \<Rightarrow> words \<Rightarrow> ustr \<Rightarrow> words" where
  "count_step db lang ign words_data original_tok =
     (if contains_number db original_tok then words_data
      else
        let norm = normalize_word db original_tok lang in
        if norm = [] then words_data
        else if norm \<in> normalized ign then words_data
        else if lower db original_tok \<in> originals ign then words_data
        else
          (case map_of words_data norm of
             None \<Rightarrow> words_data @ [(norm, \<lparr> original = original_tok, count = 1 \<rparr>)]
           | Some entry \<Rightarrow>
               AList.update norm (entry\<lparr> count := count entry + 1 \<rparr>) words_data))"

definition count_loop :: "ucd \<Rightarrow> ustr \<Rightarrow> ignore_dict \<Rightarrow> words \<Rightarrow> ustr list \<Rightarrow> words" where
  "count_loop db lang ign words_data tokens = foldl (count_step db lang ign) words_data tokens"

definition sum_counts :: "words \<Rightarrow> int" where
  "sum_counts words_data = sum_list (map (\<lambda>(k, v). count v) words_data)"

definition count_words :: "ucd \<Rightarrow> ustr \<Rightarrow> ustr \<Rightarrow> ignore_dict \<Rightarrow> words \<times> nat \<times> int" where
  "count_words db text lang ign =
     (let tokens = tokenize db text;
          total_tokens = length tokens;
          words_data = count_loop db lang ign [] tokens;
          considered_tokens = sum_counts words_data
      in (words_data, total_tokens, considered_tokens))"

text \<open>
  A token is retained when it passes the four filters of the loop; a token is ignored
  when one of the two ignore sets matches it.
\<close>

definition ignored :: "ucd \<Rightarrow> ustr \<Rightarrow> ignore_dict \<Rightarrow> ustr \<Rightarrow> bool" where
  "ignored db lang ign t =
     (normalize_word db t lang \<in> normalized ign \<or> lower db t \<in> originals ign)"

definition retained :: "ucd \<Rightarrow> ustr \<Rightarrow> ignore_dict \<Rightarrow> ustr \<Rightarrow> bool" where
  "retained db lang ign t =
     (\<not> contains_number db t \<and> normalize_word db t lang \<noteq> [] \<and> \<not> ignored db lang ign t)"

text \<open>The retained tokens of a list that map to the key \<open>k\<close>, in input order.\<close>

definition hits :: "ucd \<Rightarrow> ustr \<Rightarrow> ignore_dict \<Rightarrow> ustr \<Rightarrow> ustr list \<Rightarrow> ustr list" where
  "hits db lang ign k tokens =
     filter (\<lambda>t. retained db lang ign t \<and> normalize_word db t lang = k) tokens"

section \<open>Cache and translation\<close>

text \<open>
  The cache is the value \<^verbatim>\<open>json.load\<close> returns: any JSON value. Numbers are kept as
  integers; no function here computes with them.
\<close>

datatype json = JNull | JBool bool | JNum int | JStr ustr | JArr "json list"
  | JObj "(ustr \<times> json) list"

type_synonym dict = "(ustr \<times> json) list"

datatype py_error = OSError | ValueError | TypeError

text \<open>
  What the file system holds at \<open>cache_path\<close>: no regular file, or a file on which
  \<^verbatim>\<open>open\<close> followed by \<^verbatim>\<open>json.load\<close> raises or returns a value.
\<close>

datatype cache_file = Missing | Present "py_error + json"

definition load_cache :: "cache_file \<Rightarrow> py_error + dict" where
  "load_cache cache_path =
     (case cache_path of
        Missing \<Rightarrow> Inr []
      | Present r \<Rightarrow>
          (case r of
             Inr data \<Rightarrow> (case data of JObj d \<Rightarrow> Inr d | _ \<Rightarrow> Inr [])
           | Inl e \<Rightarrow> Inr []))"

text \<open>
  The effects of a run that the claims speak about: reading and writing the cache file,
  the warning of \<open>save_cache\<close>, and the calls of the two provider wrappers.
\<close>

datatype event = LoadCache | WriteCache dict | Warning py_error
  | CallDeepL ustr | CallMyMemory ustr

text \<open>
  \<open>write\<close> is what \<^verbatim>\<open>open("w")\<close> and \<^verbatim>\<open>json.dump\<close> do with the cache: raise or
  succeed.
\<close>

definition save_cache :: "(dict \<Rightarrow> py_error option) \<Rightarrow> dict \<Rightarrow> py_error + event list" where
  "save_cache write cache =
     (case write cache of
        None \<Rightarrow> Inr [WriteCache cache]
      | Some e \<Rightarrow> Inr [WriteCache cache, Warning e])"

text \<open>
  \<^verbatim>\<open>translate_with_deepl\<close> and \<^verbatim>\<open>translate_with_mymemory\<close> call network services.
  A provider is a parameter: given text, source and target language it raises or returns
  \<^verbatim>\<open>None\<close> or a string.
\<close>

datatype 'a outcome = Raises | Returns 'a

type_synonym provider = "ustr \<Rightarrow> ustr \<Rightarrow> ustr \<Rightarrow> ustr option outcome"

definition TARGET_LANG :: ustr where
  "TARGET_LANG = ascii ''es''"

text \<open>
  \<^verbatim>\<open>try: result = ...; if result: ... except Exception: ...\<close>: the non-empty string a
  provider returned, if any.
\<close>

definition succeeded :: "ustr option outcome \<Rightarrow> ustr option" where
  "succeeded r =
     (case r of
        Raises \<Rightarrow> None
      | Returns None \<Rightarrow> None
      | Returns (Some s) \<Rightarrow> (if s = [] then None else Some s))"

definition get_translation ::
  "provider \<Rightarrow> provider \<Rightarrow> ustr \<Rightarrow> ustr \<Rightarrow> ustr \<Rightarrow> dict \<Rightarrow> json \<times> dict \<times> event list" where
  "get_translation deepl mymemory norm_key original_word lang lang_cache =
     (case map_of lang_cache norm_key of
        Some v \<Rightarrow> (v, lang_cache, [])
      | None \<Rightarrow>
          (case succeeded (deepl original_word lang TARGET_LANG) of
             Some result \<Rightarrow>
               (JStr result, AList.update norm_key (JStr result) lang_cache,
                [CallDeepL original_word])
           | None \<Rightarrow>
               (case succeeded (mymemory original_word lang TARGET_LANG) of
                  Some result \<Rightarrow>
                    (JStr result, AList.update norm_key (JStr result) lang_cache,
                     [CallDeepL original_word, CallMyMemory original_word])
                | None \<Rightarrow>
                    (JStr (ascii ''X''), AList.update norm_key (JStr (ascii ''X'')) lang_cache,
                     [CallDeepL original_word, CallMyMemory original_word]))))"

section \<open>The main run\<close>

text \<open>The translation loop of \<open>main\<close> over \<^verbatim>\<open>words_data.items()\<close>.\<close>

fun translate_loop ::
  "provider \<Rightarrow> provider \<Rightarrow> ustr \<Rightarrow> words \<Rightarrow> dict \<Rightarrow> (ustr \<times> int \<times> json) list \<times> dict \<times> event list"
where
  "translate_loop deepl mymemory lang [] lang_cache = ([], lang_cache, [])"
| "translate_loop deepl mymemory lang ((norm, info) # rest) lang_cache =
     (case get_translation deepl mymemory norm (original info) lang lang_cache of
        (meaning, lang_cache1, ev1) \<Rightarrow>
          (case translate_loop deepl mymemory lang rest lang_cache1 of
             (es, lang_cache2, ev2) \<Rightarrow>
               ((original info, count info, meaning) # es, lang_cache2, ev1 @ ev2)))"

text \<open>\<^verbatim>\<open>entries.sort(key=lambda x: (-x[1], x[0].lower()))\<close>; the sort is stable.\<close>

definition entry_key :: "ucd \<Rightarrow> ustr \<times> int \<times> json \<Rightarrow> int \<times> ustr" where
  "entry_key db x = (case x of (orig, cnt, meaning) \<Rightarrow> (- cnt, lower db orig))"

definition sort_entries :: "ucd \<Rightarrow> (ustr \<times> int \<times> json) list \<Rightarrow> (ustr \<times> int \<times> json) list" where
  "sort_entries db es = sort_key (entry_key db) es"

record report =
  entries :: "(ustr \<times> int \<times> json) list"
  total_tokens :: nat
  considered_tokens :: int
  trace :: "event list"

text \<open>
  \<open>main\<close> from the point where the text and the ignore sets are read. The result is
  \<open>Inr None\<close> when no word remains (the early return), \<open>Inl e\<close> when the run dies with
  an exception. A slice \<^verbatim>\<open>cache[lang]\<close> that is not a dictionary makes the first
  \<open>get_translation\<close> raise \<^verbatim>\<open>TypeError\<close>.
\<close>

definition main ::
  "ucd \<Rightarrow> provider \<Rightarrow> provider \<Rightarrow> (dict \<Rightarrow> py_error option) \<Rightarrow> cache_file \<Rightarrow>
   ustr \<Rightarrow> bool \<Rightarrow> ustr \<Rightarrow> ignore_dict \<Rightarrow> py_error + report option" where
  "main db deepl mymemory write cache_path lang no_translate text ign =
     (let no_translate_mode = (no_translate \<or> lang = ascii ''es'') in
      case count_words db text lang ign of
        (words_data, n_total, n_considered) \<Rightarrow>
          if words_data = [] then Inr None
          else
            (case load_cache cache_path of
               Inl e \<Rightarrow> Inl e
             | Inr cache0 \<Rightarrow>
                 let cache = (if map_of cache0 lang = None then cache0 @ [(lang, JObj [])]
                              else cache0)
                 in
                 if no_translate_mode then
                   Inr (Some \<lparr> entries = sort_entries db
                                  (map (\<lambda>(norm, info). (original info, count info, JStr (ascii ''-'')))
                                     words_data),
                               total_tokens = n_total, considered_tokens = n_considered,
                               trace = [LoadCache] \<rparr>)
                 else
                   (case map_of cache lang of
                      Some (JObj lang_cache) \<Rightarrow>
                        (case translate_loop deepl mymemory lang words_data lang_cache of
                           (es, lang_cache', ev) \<Rightarrow>
                             (case save_cache write (AList.update lang (JObj lang_cache') cache) of
                                Inl e \<Rightarrow> Inl e
                              | Inr ev' \<Rightarrow>
                                  Inr (Some \<lparr> entries = sort_entries db es,
                                              total_tokens = n_total,
                                              considered_tokens = n_considered,
                                              trace = [LoadCache] @ ev @ ev' \<rparr>)))
                    | _ \<Rightarrow> Inl TypeError)))"

subsection \<open>The substitution table of the specification\<close>

text \<open>
  The specification describes the German branch as a fixed, ordered table of
  substitutions applied before lowercasing. \<open>spec_de_table\<close> and \<open>spec_normalize\<close>
  follow the specification's words; \<open>normalize_word\<close> above follows the source.
\<close>

definition spec_de_table :: "(nat \<times> ustr) list" where
  "spec_de_table =
     [(228, ascii ''ae''), (246, ascii ''oe''), (252, ascii ''ue''),
      (196, ascii ''Ae''), (214, ascii ''Oe''), (220, ascii ''Ue''),
      (223, ascii ''ss'')]"

definition apply_table :: "(nat \<times> ustr) list \<Rightarrow> ustr \<Rightarrow> ustr" where
  "apply_table tbl w = foldl (\<lambda>s (old, new). replace old new s) w tbl"

definition spec_normalize :: "ucd \<Rightarrow> ustr \<Rightarrow> ustr \<Rightarrow> ustr" where
  "spec_normalize db token lang =
     (let t = strip db token in
      if t = [] then []
      else if lang = ascii ''de'' then lower db (apply_table spec_de_table t)
      else lower db t)"

subsection \<open>A concrete character database\<close>

text \<open>
  \<open>latin_db\<close> is the table of CPython restricted to the code points below U+0100 and
  to U+1E9E (LATIN CAPITAL LETTER SHARP S, whose lowercase is U+00DF); the whitespace
  set is CPython's complete one. Code points outside that range are left unchanged by
  \<open>lower_cp\<close> and are neither digits nor alphanumeric here. It is used to run the
  functions on concrete inputs.
\<close>

definition space_cp :: "nat \<Rightarrow> bool" where
  "space_cp c =
     ((9 \<le> c \<and> c \<le> 13) \<or> (28 \<le> c \<and> c \<le> 32) \<or> c = 133 \<or> c = 160 \<or> c = 5760
      \<or> (8192 \<le> c \<and> c \<le> 8202) \<or> c = 8232 \<or> c = 8233 \<or> c = 8239 \<or> c = 8287
      \<or> c = 12288)"

definition digit_cp :: "nat \<Rightarrow> bool" where
  "digit_cp c = ((48 \<le> c \<and> c \<le> 57) \<or> c = 178 \<or> c = 179 \<or> c = 185)"

definition alnum_cp :: "nat \<Rightarrow> bool" where
  "alnum_cp c =
     ((48 \<le> c \<and> c \<le> 57) \<or> (65 \<le> c \<and> c \<le> 90) \<or> (97 \<le> c \<and> c \<le> 122)
      \<or> c = 170 \<or> c = 178 \<or> c = 179 \<or> c = 181 \<or> c = 185 \<or> c = 186
      \<or> (188 \<le> c \<and> c \<le> 190) \<or> (192 \<le> c \<and> c \<le> 214) \<or> (216 \<le> c \<and> c \<le> 246)
      \<or> (248 \<le> c \<and> c \<le> 255) \<or> c = 7838)"

definition lower_cp :: "nat \<Rightarrow> nat" where
  "lower_cp c =
     (if 65 \<le> c \<and> c \<le> 90 then c + 32
      else if 192 \<le> c \<and> c \<le> 214 then c + 32
      else if 216 \<le> c \<and> c \<le> 222 then c + 32
      else if c = 7838 then 223
      else c)"

definition latin_db :: ucd where
  "latin_db = \<lparr> isspace = space_cp, isdigit = digit_cp, isalnum = alnum_cp,
                lower = map lower_cp \<rparr>"

subsection \<open>Views of a run\<close>


definition lang_slice :: "dict \<Rightarrow> ustr \<Rightarrow> dict" where
  "lang_slice cache lang = (case map_of cache lang of Some (JObj d) \<Rightarrow> d | _ \<Rightarrow> [])"

definition placeholder_entries :: "words \<Rightarrow> (ustr \<times> int \<times> json) list" where
  "placeholder_entries words_data =
     map (\<lambda>(norm, info). (original info, count info, JStr (ascii ''-''))) words_data"

definition with_lang :: "dict \<Rightarrow> ustr \<Rightarrow> dict" where
  "with_lang cache0 lang =
     (if map_of cache0 lang = None then cache0 @ [(lang, JObj [])] else cache0)"

subsection \<open>Sample inputs\<close>

text \<open>
  An empty ignore specification, a provider that always raises, one that always answers
  \<open>perro\<close>, and the two behaviours of writing the cache file.
\<close>

definition no_ignore :: ignore_dict where
  "no_ignore = \<lparr>normalized = {}, originals = {}\<rparr>"

definition offline :: provider where
  "offline text source target = Raises"

definition perro :: provider where
  "perro text source target = Returns (Some (ascii ''perro''))"

definition write_ok :: "dict \<Rightarrow> py_error option" where
  "write_ok cache = None"


section \<open>Normalization\<close>

lemmas latin_simps = latin_db_def space_cp_def digit_cp_def alnum_cp_def lower_cp_def
  strip_def replace_def ascii_def normalize_word_def

lemma normalize_word_spec: "normalize_word db w lang = spec_normalize db w lang"
  by (simp add: normalize_word_def spec_normalize_def apply_table_def spec_de_table_def Let_def)

text \<open>
  C5. For the tag \<open>de\<close>, \<open>normalize_word\<close> trims the word, applies the ordered table
  \<open>spec_de_table\<close> (the seven substitutions in the order of the source) and then
  lowercases; for any other tag it only trims and lowercases. The example of the
  specification, for the word of code points M a U+00DF s t U+00E4 b e, holds.
\<close>

theorem normalize_word_de_table:
  "normalize_word db w (ascii ''de'') =
     (if strip db w = [] then [] else lower db (apply_table spec_de_table (strip db w)))
   \<and> (lang \<noteq> ascii ''de'' \<longrightarrow>
        normalize_word db w lang = (if strip db w = [] then [] else lower db (strip db w)))
   \<and> normalize_word latin_db [77, 97, 223, 115, 116, 228, 98, 101] (ascii ''de'')
       = normalize_word latin_db (ascii ''massstaebe'') (ascii ''de'')"
proof (intro conjI impI)
  show "normalize_word db w (ascii ''de'') =
     (if strip db w = [] then [] else lower db (apply_table spec_de_table (strip db w)))"
    by (simp add: normalize_word_def apply_table_def spec_de_table_def Let_def)
  show "normalize_word db w lang = (if strip db w = [] then [] else lower db (strip db w))"
    if "lang \<noteq> ascii ''de''"
    using that by (simp add: normalize_word_def Let_def)
  show "normalize_word latin_db [77, 97, 223, 115, 116, 228, 98, 101] (ascii ''de'')
       = normalize_word latin_db (ascii ''massstaebe'') (ascii ''de'')"
    by (simp add: latin_simps)
qed

theorem normalize_word_de_table_witness:
  "ascii ''en'' \<noteq> ascii ''de''
   \<and> normalize_word latin_db [32, 196, 114, 97, 32] (ascii ''en'') = [228, 114, 97]
   \<and> normalize_word latin_db [32, 196, 114, 97, 32] (ascii ''de'') = ascii ''aera''"
  using normalize_word_de_table [of latin_db "[32, 196, 114, 97, 32]" "ascii ''en''"]
  by (simp add: latin_simps apply_table_def spec_de_table_def)

text \<open>
  C2. Normalization is not idempotent for the tag \<open>de\<close>: the token U+1E9E (capital
  sharp s) is not in the substitution table, lowercasing turns it into U+00DF, and a
  second normalization replaces that by \<open>ss\<close>.
\<close>

theorem normalize_word_capital_sharp_s:
  "normalize_word latin_db [7838] (ascii ''de'') = [223]
   \<and> normalize_word latin_db (normalize_word latin_db [7838] (ascii ''de'')) (ascii ''de'')
       = ascii ''ss''"
  by (simp add: latin_simps)

text \<open>
  Outside the German branch normalization is idempotent, for any character database
  whose lowercasing is idempotent and keeps a trimmed string trimmed; \<open>latin_db\<close> is
  one.
\<close>

lemma strip_Nil: "strip db [] = []"
  by (simp add: strip_def)

lemma last_dropWhile_keep: "dropWhile P xs \<noteq> [] \<Longrightarrow> last (dropWhile P xs) = last xs"
  by (induction xs) (auto split: if_splits)

lemma strip_ends:
  assumes "strip db s \<noteq> []"
  shows "\<not> isspace db (hd (strip db s)) \<and> \<not> isspace db (last (strip db s))"
proof -
  define t where "t = dropWhile (isspace db) s"
  define u where "u = dropWhile (isspace db) (rev t)"
  have su: "strip db s = rev u" by (simp add: strip_def t_def u_def)
  have u: "u \<noteq> []" using assms su by simp
  then have t: "t \<noteq> []" by (auto simp: u_def)
  have "\<not> isspace db (hd u)" using u unfolding u_def by (rule hd_dropWhile)
  moreover have "last u = last (rev t)" using u unfolding u_def by (rule last_dropWhile_keep)
  moreover have "\<not> isspace db (hd t)" using t unfolding t_def by (rule hd_dropWhile)
  ultimately show ?thesis using u t by (simp add: su hd_rev last_rev)
qed

lemma strip_fixed:
  assumes "x = [] \<or> (\<not> isspace db (hd x) \<and> \<not> isspace db (last x))"
  shows "strip db x = x"
proof (cases "x = []")
  case True
  then show ?thesis by (simp add: strip_Nil)
next
  case False
  then have h: "\<not> isspace db (hd x)" and l: "\<not> isspace db (last x)" using assms by simp_all
  have a: "dropWhile (isspace db) x = x" using False h by (cases x) simp_all
  have "rev x \<noteq> []" "\<not> isspace db (hd (rev x))" using False l by (simp_all add: hd_rev)
  then have b: "dropWhile (isspace db) (rev x) = rev x" by (cases "rev x") simp_all
  show ?thesis by (simp add: strip_def a b)
qed

lemma strip_idem: "strip db (strip db s) = strip db s"
  using strip_ends [of db s] by (intro strip_fixed) blast

lemma normalize_word_idempotent_other:
  assumes "lang \<noteq> ascii ''de''"
    and "\<forall>s. lower db (lower db s) = lower db s"
    and "\<forall>s. strip db (lower db (strip db s)) = lower db (strip db s)"
  shows "normalize_word db (normalize_word db w lang) lang = normalize_word db w lang"
  using assms by (simp add: normalize_word_def Let_def strip_Nil)

lemma latin_lower_idem: "lower latin_db (lower latin_db s) = lower latin_db s"
  by (induction s) (auto simp: latin_db_def lower_cp_def)

lemma space_lower_cp: "space_cp (lower_cp c) = space_cp c"
  by (auto simp: space_cp_def lower_cp_def)

lemma dropWhile_space_lower:
  "dropWhile space_cp (map lower_cp xs) = map lower_cp (dropWhile space_cp xs)"
  by (induction xs) (simp_all add: space_lower_cp)

lemma strip_latin_lower:
  "strip latin_db (lower latin_db s) = lower latin_db (strip latin_db s)"
  by (simp add: strip_def latin_db_def dropWhile_space_lower rev_map)

lemma latin_normalize_idempotent_other:
  "lang \<noteq> ascii ''de'' \<Longrightarrow>
   normalize_word latin_db (normalize_word latin_db w lang) lang = normalize_word latin_db w lang"
  by (rule normalize_word_idempotent_other)
    (simp_all add: latin_lower_idem strip_latin_lower strip_idem)

section \<open>Aggregation\<close>

lemma sum_counts_update:
  "map_of wd k = Some e \<Longrightarrow>
   sum_counts (AList.update k (e\<lparr>count := count e + 1\<rparr>) wd) = sum_counts wd + 1"
  by (induction wd) (auto simp: sum_counts_def)

lemma count_step_retained:
  "retained db lang ign t \<Longrightarrow>
   count_step db lang ign wd t =
     (case map_of wd (normalize_word db t lang) of
        None \<Rightarrow> wd @ [(normalize_word db t lang, \<lparr>original = t, count = 1\<rparr>)]
      | Some e \<Rightarrow> AList.update (normalize_word db t lang) (e\<lparr>count := count e + 1\<rparr>) wd)"
  by (simp add: retained_def ignored_def count_step_def Let_def)

lemma count_step_not_retained:
  "\<not> retained db lang ign t \<Longrightarrow> count_step db lang ign wd t = wd"
  by (auto simp: retained_def ignored_def count_step_def Let_def)

lemma sum_counts_step:
  "sum_counts (count_step db lang ign wd t) =
     sum_counts wd + (if retained db lang ign t then 1 else 0)"
proof (cases "retained db lang ign t")
  case True
  then show ?thesis
    by (auto simp: count_step_retained sum_counts_update split: option.splits)
      (simp add: sum_counts_def)
next
  case False
  then show ?thesis by (simp add: count_step_not_retained)
qed

lemma sum_counts_loop:
  "sum_counts (count_loop db lang ign wd ts) =
     sum_counts wd + int (length (filter (retained db lang ign) ts))"
  by (induction ts arbitrary: wd) (simp_all add: count_loop_def sum_counts_step)

text \<open>
  C3. For every text, language and ignore sets, the counts of the result map add up to
  \<open>considered_tokens\<close>, which is the number of retained tokens and is at most
  \<open>total_tokens\<close>, the number of tokens before filtering.
\<close>

theorem count_words_invariant:
  "count_words db text lang ign = (words_data, n_total, n_considered) \<Longrightarrow>
   (\<Sum>(k, v) \<leftarrow> words_data. count v) = n_considered
   \<and> n_considered = int (length (filter (retained db lang ign) (tokenize db text)))
   \<and> n_considered \<le> int n_total"
proof -
  assume a: "count_words db text lang ign = (words_data, n_total, n_considered)"
  have w: "words_data = count_loop db lang ign [] (tokenize db text)"
    and t: "n_total = length (tokenize db text)"
    and c: "n_considered = sum_counts words_data"
    using a by (auto simp: count_words_def Let_def)
  have "sum_counts words_data = int (length (filter (retained db lang ign) (tokenize db text)))"
    unfolding w by (simp add: sum_counts_loop) (simp add: sum_counts_def)
  moreover have "length (filter (retained db lang ign) (tokenize db text)) \<le> n_total"
    unfolding t by (rule length_filter_le)
  ultimately show ?thesis using c by (simp add: sum_counts_def)
qed

lemmas count_simps = count_words_def tokenize_def is_word_def count_loop_def count_step_def
  contains_number_def sum_counts_def Let_def

theorem count_words_invariant_witness:
  "count_words latin_db (ascii ''Der Hund 12 der'') (ascii ''de'')
         \<lparr>normalized = {}, originals = {}\<rparr>
       = ([(ascii ''der'', \<lparr>original = ascii ''Der'', count = 2\<rparr>),
           (ascii ''hund'', \<lparr>original = ascii ''Hund'', count = 1\<rparr>)], 4, 3)
   \<and> (\<Sum>(k, v) \<leftarrow> [(ascii ''der'', \<lparr>original = ascii ''Der'', count = 2\<rparr>),
           (ascii ''hund'', \<lparr>original = ascii ''Hund'', count = 1\<rparr>)]. count v) = 3
   \<and> (3::int) \<le> int 4"
proof -
  have e: "count_words latin_db (ascii ''Der Hund 12 der'') (ascii ''de'')
         \<lparr>normalized = {}, originals = {}\<rparr>
       = ([(ascii ''der'', \<lparr>original = ascii ''Der'', count = 2\<rparr>),
           (ascii ''hund'', \<lparr>original = ascii ''Hund'', count = 1\<rparr>)], 4, 3)"
    by (simp add: count_simps latin_simps)
  show ?thesis using e count_words_invariant [OF e] by simp
qed

lemma count_loop_append:
  "count_loop db lang ign wd (xs @ ys) = count_loop db lang ign (count_loop db lang ign wd xs) ys"
  by (simp add: count_loop_def)

lemma count_loop_Cons:
  "count_loop db lang ign wd (t # ts) = count_loop db lang ign (count_step db lang ign wd t) ts"
  by (simp add: count_loop_def)

text \<open>
  C6. A token whose normalized key is in the \<open>normalized\<close> set, or whose lowercase
  literal is in the \<open>originals\<close> set, leaves the result map as it is: the loop body
  returns the map unchanged for it, and the aggregation of a token list equals the
  aggregation of the list without that token. Either match alone is enough.
\<close>

theorem ignored_token_contributes_nothing:
  "normalize_word db t lang \<in> normalized ign \<or> lower db t \<in> originals ign \<Longrightarrow>
   count_step db lang ign wd t = wd
   \<and> count_loop db lang ign [] (xs @ t # ys) = count_loop db lang ign [] (xs @ ys)
   \<and> (tokenize db text = xs @ t # ys \<longrightarrow>
        fst (count_words db text lang ign) = count_loop db lang ign [] (xs @ ys))"
proof -
  assume a: "normalize_word db t lang \<in> normalized ign \<or> lower db t \<in> originals ign"
  have s: "count_step db lang ign wd' t = wd'" for wd'
    using a by (auto simp: count_step_def Let_def)
  have l: "count_loop db lang ign [] (xs @ t # ys) = count_loop db lang ign [] (xs @ ys)"
    by (simp add: count_loop_append count_loop_Cons s)
  show ?thesis using s l by (simp add: count_words_def Let_def)
qed

theorem ignored_token_contributes_nothing_witness:
  "lower latin_db (ascii ''The'') \<in> originals \<lparr>normalized = {}, originals = {ascii ''the''}\<rparr>
   \<and> normalize_word latin_db (ascii ''The'') (ascii ''en'')
        \<notin> normalized \<lparr>normalized = {}, originals = {ascii ''the''}\<rparr>
   \<and> tokenize latin_db (ascii ''The cat'') = [] @ ascii ''The'' # [ascii ''cat'']
   \<and> fst (count_words latin_db (ascii ''The cat'') (ascii ''en'')
             \<lparr>normalized = {}, originals = {ascii ''the''}\<rparr>)
       = [(ascii ''cat'', \<lparr>original = ascii ''cat'', count = 1\<rparr>)]"
  using ignored_token_contributes_nothing [of latin_db "ascii ''The''" "ascii ''en''"
      "\<lparr>normalized = {}, originals = {ascii ''the''}\<rparr>" "[]" "[]" "[ascii ''cat'']"
      "ascii ''The cat''"]
  by (simp add: count_simps latin_simps)

lemma map_of_count_step:
  "map_of (count_step db lang ign wd t) k =
     (if retained db lang ign t \<and> normalize_word db t lang = k then
        (case map_of wd k of
           None \<Rightarrow> Some \<lparr>original = t, count = 1\<rparr>
         | Some e \<Rightarrow> Some (e\<lparr>count := count e + 1\<rparr>))
      else map_of wd k)"
proof (cases "retained db lang ign t")
  case True
  then show ?thesis
    by (auto simp: count_step_retained update_conv' map_add_def split: option.splits)
next
  case False
  then show ?thesis by (simp add: count_step_not_retained)
qed

lemma map_of_count_loop:
  "map_of (count_loop db lang ign wd ts) k =
     (case map_of wd k of
        Some e \<Rightarrow> Some (e\<lparr>count := count e + int (length (hits db lang ign k ts))\<rparr>)
      | None \<Rightarrow>
          (case hits db lang ign k ts of
             [] \<Rightarrow> None
           | t # _ \<Rightarrow> Some \<lparr>original = t, count = int (length (hits db lang ign k ts))\<rparr>))"
proof (induction ts arbitrary: wd)
  case Nil
  then show ?case by (simp add: count_loop_def hits_def split: option.splits)
next
  case (Cons t ts)
  show ?case
    unfolding count_loop_Cons Cons.IH
    by (auto simp: map_of_count_step hits_def split: option.splits list.splits)
qed

text \<open>
  C7. The entry stored under a key holds as \<open>original\<close> the first retained token, in
  input order, that maps to the key, and as \<open>count\<close> the number of such tokens. An
  entry that exists is never given another \<open>original\<close>: processing more tokens only
  adds to its count.
\<close>

theorem first_seen_original:
  "(map_of (fst (count_words db text lang ign)) k = Some e \<longrightarrow>
      hits db lang ign k (tokenize db text) \<noteq> []
      \<and> original e = hd (hits db lang ign k (tokenize db text))
      \<and> count e = int (length (hits db lang ign k (tokenize db text))))
   \<and> (map_of wd k = Some e' \<longrightarrow>
        map_of (count_loop db lang ign wd ts) k =
          Some (e'\<lparr>count := count e' + int (length (hits db lang ign k ts))\<rparr>))"
  by (auto simp: count_words_def Let_def map_of_count_loop split: list.splits)


theorem first_seen_original_witness:
  "map_of (fst (count_words latin_db (ascii ''Run run'') (ascii ''en'') no_ignore)) (ascii ''run'')
     = Some \<lparr>original = ascii ''Run'', count = 2\<rparr>
   \<and> hd (hits latin_db (ascii ''en'') no_ignore (ascii ''run'')
            (tokenize latin_db (ascii ''Run run''))) = ascii ''Run''
   \<and> map_of (count_loop latin_db (ascii ''en'') no_ignore
          [(ascii ''run'', \<lparr>original = ascii ''Run'', count = 1\<rparr>)] [ascii ''run'']) (ascii ''run'')
     = Some \<lparr>original = ascii ''Run'', count = 2\<rparr>"
proof -
  have e: "map_of (fst (count_words latin_db (ascii ''Run run'') (ascii ''en'') no_ignore))
      (ascii ''run'') = Some \<lparr>original = ascii ''Run'', count = 2\<rparr>"
    by (simp add: count_simps latin_simps no_ignore_def)
  have m: "map_of [(ascii ''run'', \<lparr>original = ascii ''Run'', count = 1\<rparr>)] (ascii ''run'')
      = Some \<lparr>original = ascii ''Run'', count = 1\<rparr>"
    by simp
  show ?thesis
    using e m first_seen_original [of latin_db "ascii ''Run run''" "ascii ''en''" no_ignore
        "ascii ''run''" "\<lparr>original = ascii ''Run'', count = 2\<rparr>"
        "[(ascii ''run'', \<lparr>original = ascii ''Run'', count = 1\<rparr>)]"
        "\<lparr>original = ascii ''Run'', count = 1\<rparr>" "[ascii ''run'']"]
    by (simp add: hits_def retained_def ignored_def no_ignore_def count_simps latin_simps)
qed

section \<open>Translation resolution\<close>

lemma succeeded_None_iff:
  "succeeded x = None \<longleftrightarrow> x = Raises \<or> x = Returns None \<or> x = Returns (Some [])"
  by (auto simp: succeeded_def split: outcome.splits option.splits)

lemma succeeded_Some_iff:
  "succeeded x = Some r \<longleftrightarrow> x = Returns (Some r) \<and> r \<noteq> []"
  by (auto simp: succeeded_def split: outcome.splits option.splits)

text \<open>
  C1. \<open>get_translation\<close> follows the chain cache, DeepL, MyMemory, sentinel. A key in
  the cache returns the cached value with no provider call and the cache unchanged. For
  a key not in the cache: a non-empty answer of DeepL is the result and MyMemory is not
  called; when DeepL raises, returns \<^verbatim>\<open>None\<close> or returns the empty string, MyMemory is
  called, its non-empty answer is the result, and otherwise the result is \<open>X\<close>. In each
  of these branches the result is stored under the key, and resolving the key again,
  with any providers, returns the same value with no provider call.
\<close>

theorem get_translation_fallback:
  "(map_of lang_cache k = Some v \<longrightarrow>
      get_translation deepl mymemory k w lang lang_cache = (v, lang_cache, []))
   \<and> (map_of lang_cache k = None \<longrightarrow>
        (case get_translation deepl mymemory k w lang lang_cache of
           (result, cache', ev) \<Rightarrow>
             (succeeded (deepl w lang TARGET_LANG) = Some r \<longrightarrow>
                result = JStr r \<and> ev = [CallDeepL w])
             \<and> (deepl w lang TARGET_LANG = Raises \<or> deepl w lang TARGET_LANG = Returns None
                  \<or> deepl w lang TARGET_LANG = Returns (Some []) \<longrightarrow>
                  ev = [CallDeepL w, CallMyMemory w]
                  \<and> (succeeded (mymemory w lang TARGET_LANG) = Some r \<longrightarrow> result = JStr r)
                  \<and> (succeeded (mymemory w lang TARGET_LANG) = None \<longrightarrow>
                        result = JStr (ascii ''X'')))
             \<and> map_of cache' k = Some result
             \<and> get_translation deepl' mymemory' k w' lang cache' = (result, cache', [])))"
proof -
  have iff: "(deepl w lang TARGET_LANG = Raises \<or> deepl w lang TARGET_LANG = Returns None
                  \<or> deepl w lang TARGET_LANG = Returns (Some []))
             = (succeeded (deepl w lang TARGET_LANG) = None)"
    by (simp add: succeeded_None_iff)
  show ?thesis
    unfolding iff
    by (cases "succeeded (deepl w lang TARGET_LANG)";
        cases "succeeded (mymemory w lang TARGET_LANG)")
      (simp_all add: get_translation_def update_conv')
qed

theorem get_translation_fallback_witness:
  "map_of [] (ascii ''hund'') = (None :: json option)
   \<and> offline (ascii ''Hund'') (ascii ''de'') TARGET_LANG = Raises
   \<and> succeeded (perro (ascii ''Hund'') (ascii ''de'') TARGET_LANG) = Some (ascii ''perro'')
   \<and> get_translation offline perro (ascii ''hund'') (ascii ''Hund'') (ascii ''de'') []
       = (JStr (ascii ''perro''), [(ascii ''hund'', JStr (ascii ''perro''))],
          [CallDeepL (ascii ''Hund''), CallMyMemory (ascii ''Hund'')])
   \<and> get_translation offline offline (ascii ''hund'') (ascii ''Hund'') (ascii ''de'')
         [(ascii ''hund'', JStr (ascii ''perro''))]
       = (JStr (ascii ''perro''), [(ascii ''hund'', JStr (ascii ''perro''))], [])"
  using get_translation_fallback [of "[]" "ascii ''hund''" _ offline perro "ascii ''Hund''"
      "ascii ''de''" "ascii ''perro''" offline offline "ascii ''Hund''"]
  by (simp add: get_translation_def succeeded_def offline_def perro_def ascii_def)

section \<open>The run as a whole\<close>

lemma load_cache_total: "\<exists>d. load_cache f = Inr d"
  by (auto simp: load_cache_def split: cache_file.splits sum.splits json.splits)

lemma save_cache_total: "\<exists>ev. save_cache wr c = Inr ev"
  by (auto simp: save_cache_def split: option.splits)

lemma main_no_translate_eq:
  assumes "no_translate \<or> lang = ascii ''es''"
  shows "main db deepl mymemory wr cache_path lang no_translate text ign =
     (case count_words db text lang ign of
        (wd, nt, nc) \<Rightarrow>
          if wd = [] then Inr None
          else Inr (Some \<lparr>entries = sort_entries db (placeholder_entries wd),
                 total_tokens = nt, considered_tokens = nc, trace = [LoadCache]\<rparr>))"
proof -
  obtain d where d: "load_cache cache_path = Inr d"
    using load_cache_total by blast
  show ?thesis
    using assms by (auto simp: main_def d Let_def placeholder_entries_def split: prod.splits)
qed

lemmas main_simps = main_def load_cache_def save_cache_def sort_entries_def entry_key_def
  get_translation_def succeeded_def TARGET_LANG_def

lemma main_translate_eq:
  assumes "\<not> no_translate" "lang \<noteq> ascii ''es''"
    and "count_words db text lang ign = (wd, n1, n2)" "wd \<noteq> []"
    and "load_cache cache_path = Inr cache0"
  shows "main db deepl mymemory wr cache_path lang no_translate text ign =
     (case map_of (with_lang cache0 lang) lang of
        Some (JObj lc) \<Rightarrow>
          (case translate_loop deepl mymemory lang wd lc of
             (es, lc', ev) \<Rightarrow>
               Inr (Some \<lparr>entries = sort_entries db es, total_tokens = n1,
                 considered_tokens = n2,
                 trace = [LoadCache] @ ev @
                   (case wr (AList.update lang (JObj lc') (with_lang cache0 lang)) of
                      None \<Rightarrow> [WriteCache (AList.update lang (JObj lc') (with_lang cache0 lang))]
                    | Some e \<Rightarrow> [WriteCache (AList.update lang (JObj lc') (with_lang cache0 lang)),
                                 Warning e])\<rparr>))
      | _ \<Rightarrow> Inl TypeError)"
  unfolding main_def Let_def assms(3) prod.case assms(5) sum.case with_lang_def [symmetric]
  using assms(1,2,4)
  by (simp add: save_cache_def split: option.split json.split prod.split)

lemma main_Some_cases:
  assumes m: "main db deepl mymemory wr cache_path lang no_translate text ign = Inr (Some r)"
  obtains (skip) wd n1 n2 where "no_translate \<or> lang = ascii ''es''"
      "count_words db text lang ign = (wd, n1, n2)" "wd \<noteq> []"
      "r = \<lparr>entries = sort_entries db (placeholder_entries wd), total_tokens = n1,
            considered_tokens = n2, trace = [LoadCache]\<rparr>"
  | (translate) wd n1 n2 cache0 lc es lc' ev where
      "\<not> no_translate" "lang \<noteq> ascii ''es''"
      "count_words db text lang ign = (wd, n1, n2)" "wd \<noteq> []"
      "load_cache cache_path = Inr cache0"
      "map_of (with_lang cache0 lang) lang = Some (JObj lc)"
      "translate_loop deepl mymemory lang wd lc = (es, lc', ev)"
      "r = \<lparr>entries = sort_entries db es, total_tokens = n1, considered_tokens = n2,
            trace = [LoadCache] @ ev @
              (case wr (AList.update lang (JObj lc') (with_lang cache0 lang)) of
                 None \<Rightarrow> [WriteCache (AList.update lang (JObj lc') (with_lang cache0 lang))]
               | Some e \<Rightarrow> [WriteCache (AList.update lang (JObj lc') (with_lang cache0 lang)),
                            Warning e])\<rparr>"
proof -
  obtain wd n1 n2 where cw: "count_words db text lang ign = (wd, n1, n2)"
    by (cases "count_words db text lang ign")
  obtain cache0 where lc: "load_cache cache_path = Inr cache0"
    using load_cache_total by blast
  show thesis
  proof (cases "no_translate \<or> lang = ascii ''es''")
    case True
    have ne: "wd \<noteq> []"
      using m by (auto simp: main_no_translate_eq [OF True] cw)
    then have "r = \<lparr>entries = sort_entries db (placeholder_entries wd), total_tokens = n1,
            considered_tokens = n2, trace = [LoadCache]\<rparr>"
      using m by (simp add: main_no_translate_eq [OF True] cw)
    then show thesis using skip True cw ne by blast
  next
    case False
    then have nt: "\<not> no_translate" and es: "lang \<noteq> ascii ''es''" by simp_all
    have ne: "wd \<noteq> []"
      using m by (auto simp: main_def cw)
    note eq = main_translate_eq [OF nt es cw ne lc, of deepl mymemory wr]
    obtain lcache where s: "map_of (with_lang cache0 lang) lang = Some (JObj lcache)"
      using m unfolding eq by (auto split: option.splits json.splits)
    obtain es lc' ev where t: "translate_loop deepl mymemory lang wd lcache = (es, lc', ev)"
      by (cases "translate_loop deepl mymemory lang wd lcache")
    have "r = \<lparr>entries = sort_entries db es, total_tokens = n1, considered_tokens = n2,
            trace = [LoadCache] @ ev @
              (case wr (AList.update lang (JObj lc') (with_lang cache0 lang)) of
                 None \<Rightarrow> [WriteCache (AList.update lang (JObj lc') (with_lang cache0 lang))]
               | Some e \<Rightarrow> [WriteCache (AList.update lang (JObj lc') (with_lang cache0 lang)),
                            Warning e])\<rparr>"
      using m unfolding eq by (simp add: s t)
    then show thesis using translate nt es cw ne lc s t by blast
  qed
qed

lemma main_entries_sorted:
  assumes "main db deepl mymemory wr cache_path lang nt text ign = Inr (Some r)"
  shows "\<exists>es. entries r = sort_entries db es"
  using assms by (cases rule: main_Some_cases) auto




text \<open>
  C9. In the entries of a finished run, for each pair of neighbours either the first
  has the greater count, or the counts are equal and the lowercased original of the
  first is at most that of the second (strings compared code point by code point).
\<close>

theorem entries_ordered:
  "main db deepl mymemory wr cache_path lang nt text ign = Inr (Some r) \<Longrightarrow>
   Suc i < length (entries r) \<Longrightarrow>
   (case (entries r ! i, entries r ! Suc i) of
      ((o1, c1, m1), (o2, c2, m2)) \<Rightarrow>
        c1 > c2 \<or> (c1 = c2 \<and> lower db o1 \<le> lower db o2))"
proof -
  assume m: "main db deepl mymemory wr cache_path lang nt text ign = Inr (Some r)"
    and i: "Suc i < length (entries r)"
  obtain es where es: "entries r = sort_entries db es"
    using main_entries_sorted [OF m] by blast
  have "sorted (map (entry_key db) (entries r))"
    by (simp add: es sort_entries_def)
  then have "map (entry_key db) (entries r) ! i \<le> map (entry_key db) (entries r) ! Suc i"
    using i by (intro sorted_nth_mono) simp_all
  then have "entry_key db (entries r ! i) \<le> entry_key db (entries r ! Suc i)"
    using i by simp
  then show ?thesis
    by (auto simp: entry_key_def less_eq_prod_def split: prod.splits)
qed

theorem entries_ordered_witness:
  "main latin_db offline offline write_ok (Present (Inr (JObj []))) (ascii ''es'') False
     (ascii ''mundo Hola ah hola'') no_ignore
   = Inr (Some \<lparr>entries = [(ascii ''Hola'', 2, JStr (ascii ''-'')),
                            (ascii ''ah'', 1, JStr (ascii ''-'')),
                            (ascii ''mundo'', 1, JStr (ascii ''-''))],
                 total_tokens = 4, considered_tokens = 4, trace = [LoadCache]\<rparr>)
   \<and> Suc 1 < length [(ascii ''Hola'', 2 :: int, JStr (ascii ''-'')),
                            (ascii ''ah'', 1, JStr (ascii ''-'')),
                            (ascii ''mundo'', 1, JStr (ascii ''-''))]
   \<and> lower latin_db (ascii ''ah'') \<le> lower latin_db (ascii ''mundo'')"
proof -
  have e: "main latin_db offline offline write_ok (Present (Inr (JObj []))) (ascii ''es'') False
     (ascii ''mundo Hola ah hola'') no_ignore
   = Inr (Some \<lparr>entries = [(ascii ''Hola'', 2, JStr (ascii ''-'')),
                            (ascii ''ah'', 1, JStr (ascii ''-'')),
                            (ascii ''mundo'', 1, JStr (ascii ''-''))],
                 total_tokens = 4, considered_tokens = 4, trace = [LoadCache]\<rparr>)"
    by (simp add: main_simps count_simps latin_simps no_ignore_def less_eq_prod_def)
  show ?thesis
    using e entries_ordered [OF e, of 1] by simp
qed




lemma normalize_word_lower:
  assumes "\<forall>s. lower db (lower db s) = lower db s" and "normalize_word db w lang \<noteq> []"
  shows "lower db (normalize_word db w lang) = normalize_word db w lang"
  using assms by (auto simp: normalize_word_def Let_def split: if_splits)

lemma count_step_keys:
  assumes "\<forall>k \<in> fst ` set wd. P k"
    and "\<And>u. retained db lang ign u \<Longrightarrow> P (normalize_word db u lang)"
  shows "\<forall>k \<in> fst ` set (count_step db lang ign wd t). P k"
proof (cases "retained db lang ign t")
  case True
  then have "P (normalize_word db t lang)" by (rule assms(2))
  then show ?thesis
    using assms(1) True
    by (cases "map_of wd (normalize_word db t lang)")
      (simp_all add: count_step_retained dom_update)
next
  case False
  then show ?thesis using assms by (simp add: count_step_not_retained)
qed

lemma count_loop_keys:
  assumes "\<And>u. retained db lang ign u \<Longrightarrow> P (normalize_word db u lang)"
  shows "\<forall>k \<in> fst ` set wd. P k \<Longrightarrow> \<forall>k \<in> fst ` set (count_loop db lang ign wd ts). P k"
proof (induction ts arbitrary: wd)
  case Nil
  then show ?case by (simp add: count_loop_def)
next
  case (Cons t ts)
  show ?case
    unfolding count_loop_Cons
    by (rule Cons.IH) (rule count_step_keys [OF Cons.prems assms])
qed

lemma get_translation_keys:
  "fst ` set (fst (snd (get_translation d m k w lang lc))) \<subseteq> insert k (fst ` set lc)"
  by (simp add: get_translation_def dom_update subset_insertI split: option.split)

lemma get_translation_events:
  "WriteCache c \<notin> set (snd (snd (get_translation d m k w lang lc)))"
  by (simp add: get_translation_def split: option.split)

lemma translate_loop_keys:
  "translate_loop d m lang wd lc = (es, lc', ev) \<Longrightarrow>
   fst ` set lc' \<subseteq> fst ` set lc \<union> fst ` set wd \<and> WriteCache c \<notin> set ev"
proof (induction wd arbitrary: lc es lc' ev)
  case Nil
  then show ?case by simp
next
  case (Cons x wd)
  obtain norm info where x: "x = (norm, info)" by (cases x)
  obtain meaning lc1 ev1 where g:
    "get_translation d m norm (original info) lang lc = (meaning, lc1, ev1)"
    by (cases "get_translation d m norm (original info) lang lc")
  obtain es2 lc2 ev2 where t: "translate_loop d m lang wd lc1 = (es2, lc2, ev2)"
    by (cases "translate_loop d m lang wd lc1")
  have r: "lc' = lc2" "ev = ev1 @ ev2"
    using Cons.prems by (simp_all add: x g t)
  have a: "fst ` set lc1 \<subseteq> insert norm (fst ` set lc)"
    using get_translation_keys [of d m norm "original info" lang lc] by (simp add: g)
  have a': "WriteCache c \<notin> set ev1"
    using get_translation_events [of c d m norm "original info" lang lc] by (simp add: g)
  have b: "fst ` set lc2 \<subseteq> fst ` set lc1 \<union> fst ` set wd" and b': "WriteCache c \<notin> set ev2"
    using Cons.IH [OF t] by simp_all
  have "fst ` set lc2 \<subseteq> fst ` set lc \<union> insert norm (fst ` set wd)"
    using a b by blast
  then show ?case using a' b' by (simp add: r x)
qed

lemma lang_slice_update: "lang_slice (AList.update lang (JObj d) cache) lang = d"
  by (simp add: lang_slice_def update_conv')

lemma lang_slice_with_lang:
  "map_of (with_lang cache0 lang) lang = Some (JObj lc) \<Longrightarrow> lang_slice cache0 lang = lc"
  by (cases "map_of cache0 lang") (auto simp: with_lang_def lang_slice_def)

lemma count_words_keys:
  assumes "\<forall>s. lower db (lower db s) = lower db s"
  shows "\<forall>k \<in> fst ` set (fst (count_words db text lang ign)). k \<noteq> [] \<and> lower db k = k"
proof -
  have "\<forall>k \<in> fst ` set (count_loop db lang ign [] (tokenize db text)).
          k \<noteq> [] \<and> lower db k = k"
  proof (rule count_loop_keys)
    show "normalize_word db u lang \<noteq> []
        \<and> lower db (normalize_word db u lang) = normalize_word db u lang"
      if "retained db lang ign u" for u
      using that normalize_word_lower [OF assms] by (simp add: retained_def)
  qed simp
  then show ?thesis by (simp add: count_words_def Let_def)
qed

text \<open>
  C10. When lowercasing is idempotent, a non-empty key returned by \<open>normalize_word\<close> is
  unchanged by lowercasing; so are all keys of the aggregation map, and all keys that a
  run adds to the dictionary of its language in the cache it writes.
\<close>

theorem keys_are_lowercase:
  "\<forall>s. lower db (lower db s) = lower db s \<Longrightarrow>
   (normalize_word db w lang \<noteq> [] \<longrightarrow>
      lower db (normalize_word db w lang) = normalize_word db w lang)
   \<and> (\<forall>k \<in> fst ` set (fst (count_words db text lang ign)). k \<noteq> [] \<and> lower db k = k)
   \<and> (main db deepl mymemory wr cache_path lang nt text ign = Inr (Some r)
        \<and> load_cache cache_path = Inr cache0 \<and> WriteCache c \<in> set (trace r) \<longrightarrow>
        (\<forall>k \<in> fst ` set (lang_slice c lang) - fst ` set (lang_slice cache0 lang).
           k \<noteq> [] \<and> lower db k = k))"
proof (intro conjI impI)
  assume idem: "\<forall>s. lower db (lower db s) = lower db s"
  show "lower db (normalize_word db w lang) = normalize_word db w lang"
    if "normalize_word db w lang \<noteq> []"
    using idem that by (rule normalize_word_lower)
  show keys: "\<forall>k \<in> fst ` set (fst (count_words db text lang ign)). k \<noteq> [] \<and> lower db k = k"
    using idem by (rule count_words_keys)
  show "\<forall>k \<in> fst ` set (lang_slice c lang) - fst ` set (lang_slice cache0 lang).
           k \<noteq> [] \<and> lower db k = k"
    if a: "main db deepl mymemory wr cache_path lang nt text ign = Inr (Some r)
        \<and> load_cache cache_path = Inr cache0 \<and> WriteCache c \<in> set (trace r)"
  proof -
    from a have m: "main db deepl mymemory wr cache_path lang nt text ign = Inr (Some r)"
      and l: "load_cache cache_path = Inr cache0" and w: "WriteCache c \<in> set (trace r)"
      by simp_all
    from m show ?thesis
    proof (cases rule: main_Some_cases)
      case (skip wd n1 n2)
      then show ?thesis using w by simp
    next
      case (translate wd n1 n2 cache1 lc es lc' ev)
      have c1: "cache1 = cache0" using l translate(5) by simp
      have t: "fst ` set lc' \<subseteq> fst ` set lc \<union> fst ` set wd" and nw: "WriteCache c \<notin> set ev"
        using translate_loop_keys [OF translate(7)] by simp_all
      have "c = AList.update lang (JObj lc') (with_lang cache0 lang)"
        using w nw by (auto simp: translate(8) c1 split: option.splits)
      then have s: "lang_slice c lang = lc'" by (simp add: lang_slice_update)
      have s0: "lang_slice cache0 lang = lc"
        using translate(6) unfolding c1 by (rule lang_slice_with_lang)
      have "fst ` set lc' - fst ` set lc \<subseteq> fst ` set (fst (count_words db text lang ign))"
        using t by (auto simp: translate(3))
      then show ?thesis using keys unfolding s s0 by blast
    qed
  qed
qed

theorem keys_are_lowercase_witness:
  "normalize_word latin_db (ascii ''Hund'') (ascii ''de'') = ascii ''hund''
   \<and> lower latin_db (ascii ''hund'') = ascii ''hund''
   \<and> main latin_db offline perro write_ok Missing (ascii ''de'') False (ascii ''Hund'') no_ignore
     = Inr (Some \<lparr>entries = [(ascii ''Hund'', 1, JStr (ascii ''perro''))],
                 total_tokens = 1, considered_tokens = 1,
                 trace = [LoadCache, CallDeepL (ascii ''Hund''), CallMyMemory (ascii ''Hund''),
                   WriteCache [(ascii ''de'', JObj [(ascii ''hund'', JStr (ascii ''perro''))])]]\<rparr>)
   \<and> ascii ''hund'' \<in> fst ` set (lang_slice
         [(ascii ''de'', JObj [(ascii ''hund'', JStr (ascii ''perro''))])] (ascii ''de''))
       - fst ` set (lang_slice [] (ascii ''de''))"
proof -
  have i: "\<forall>s. lower latin_db (lower latin_db s) = lower latin_db s"
    by (simp add: latin_lower_idem)
  have e: "main latin_db offline perro write_ok Missing (ascii ''de'') False (ascii ''Hund'')
      no_ignore
     = Inr (Some \<lparr>entries = [(ascii ''Hund'', 1, JStr (ascii ''perro''))],
                 total_tokens = 1, considered_tokens = 1,
                 trace = [LoadCache, CallDeepL (ascii ''Hund''), CallMyMemory (ascii ''Hund''),
                   WriteCache [(ascii ''de'', JObj [(ascii ''hund'', JStr (ascii ''perro''))])]]\<rparr>)"
    by (simp add: main_simps count_simps latin_simps no_ignore_def offline_def perro_def
        write_ok_def)
  show ?thesis
    using e keys_are_lowercase [OF i, of "ascii ''Hund''" "ascii ''de''" "ascii ''Hund''"
        no_ignore offline perro write_ok Missing False
        "\<lparr>entries = [(ascii ''Hund'', 1, JStr (ascii ''perro''))],
          total_tokens = 1, considered_tokens = 1,
          trace = [LoadCache, CallDeepL (ascii ''Hund''), CallMyMemory (ascii ''Hund''),
            WriteCache [(ascii ''de'', JObj [(ascii ''hund'', JStr (ascii ''perro''))])]]\<rparr>"
        "[]"
        "[(ascii ''de'', JObj [(ascii ''hund'', JStr (ascii ''perro''))])]"]
    by (simp add: lang_slice_def latin_simps)
qed

end
